theory Spec2Isabelle
  imports Main "HOL-Library.Word" "HOL-Library.Log_Nat"
begin

section \<open>Entry model\<close>

text \<open>
  Exceptions of the Python source that can reach one of the modelled operations.
\<close>

datatype py_error =
    PermissionError
  | OSError
  | AttributeError
  | TypeError
  | ValueError
  | OverflowError
  | ZeroDivisionError

text \<open>
  A Python string is the list of its code points. \<open>str\<close> turns a literal of ASCII
  characters into one.
\<close>

type_synonym pystr = "nat list"

definition str :: "string \<Rightarrow> pystr" where
  "str s = map of_char s"

text \<open>
  The class \<open>Node\<close> of \<open>main.py\<close>: \<open>name\<close>, \<open>is_dir\<close>, \<open>children\<close> (a list for a
  directory, Python's \<open>None\<close> for a file) and \<open>size\<close> (a Python integer). The field
  \<open>size\<close> is called \<open>size_field\<close> here, since \<open>size\<close> is a constant of HOL. The tree is
  owned from parent to children; the back reference \<open>parent\<close> (read only by
  \<open>full_path\<close>) and the two fields written by the canvas (\<open>rect_coords\<close>, \<open>canvas_id\<close>)
  are not part of the datatype: the placement list of the layout carries what
  \<open>rect_coords\<close> would hold.
\<close>

datatype node =
  Node (name: pystr) (is_dir: bool) (children: "node list option") (size_field: int)

text \<open>\<open>Node.__init__(name, parent, is_dir, size)\<close>: \<open>children = [] if is_dir else None\<close>.\<close>

definition Node_init :: "pystr \<Rightarrow> bool \<Rightarrow> int \<Rightarrow> node" where
  "Node_init nm d sz = Node nm d (if d then Some [] else None) sz"

text \<open>\<open>add_child\<close>: appends when \<open>children is not None\<close>, does nothing otherwise.\<close>

fun add_child :: "node \<Rightarrow> node \<Rightarrow> node" where
  "add_child (Node nm d (Some cs) sz) ch = Node nm d (Some (cs @ [ch])) sz"
| "add_child (Node nm d None sz) ch = Node nm d None sz"

text \<open>
  \<open>aggregate_size\<close> overwrites \<open>self.size\<close> of a directory and returns the total; the
  model returns the updated node with it. The \<open>for\<close> loop over \<open>self.children\<close> is
  \<open>aggregate_children\<close>, with the running \<open>total\<close> (here \<open>tot\<close>). Iterating over \<open>None\<close> (a node with
  \<open>is_dir\<close> set and no child list) raises \<open>TypeError\<close>.
\<close>

fun aggregate_size :: "node \<Rightarrow> py_error + node \<times> int"
  and aggregate_children :: "node list \<Rightarrow> int \<Rightarrow> py_error + node list \<times> int" where
  "aggregate_size (Node nm d chs sz) =
     (if \<not> d then Inr (Node nm d chs sz, sz)
      else case chs of
             None \<Rightarrow> Inl TypeError
           | Some cs \<Rightarrow>
               (case aggregate_children cs 0 of
                  Inl e \<Rightarrow> Inl e
                | Inr (cs', tot) \<Rightarrow> Inr (Node nm d (Some cs') tot, tot)))"
| "aggregate_children [] tot = Inr ([], tot)"
| "aggregate_children (ch # rest) tot =
     (case aggregate_size ch of
        Inl e \<Rightarrow> Inl e
      | Inr (ch', t) \<Rightarrow>
          (case aggregate_children rest (tot + t) of
             Inl e \<Rightarrow> Inl e
           | Inr (rest', tot') \<Rightarrow> Inr (ch' # rest', tot')))"

text \<open>
  The invariant of the data model: a child list is present exactly for a directory, at
  every node of the tree.
\<close>

fun children_iff_dir :: "node \<Rightarrow> bool" where
  "children_iff_dir (Node nm d chs sz) =
     (case chs of
        None \<Rightarrow> \<not> d
      | Some cs \<Rightarrow> d \<and> list_all children_iff_dir cs)"

text \<open>
  Every directory of the tree holds the sum of the sizes of its children. Below a node
  that is not a directory nothing is asked: aggregation does not descend there.
\<close>

fun dir_sizes_ok :: "node \<Rightarrow> bool" where
  "dir_sizes_ok (Node nm d chs sz) =
     (if \<not> d then True
      else case chs of
             None \<Rightarrow> False
           | Some cs \<Rightarrow> sz = sum_list (map size_field cs) \<and> list_all dir_sizes_ok cs)"

text \<open>
  The tree with the size of every directory set to zero: two trees with the same image
  differ in the sizes of directories only.
\<close>

fun erase_dir_sizes :: "node \<Rightarrow> node" where
  "erase_dir_sizes (Node nm d chs sz) =
     (if \<not> d then Node nm d chs sz
      else Node nm d (map_option (map erase_dir_sizes) chs) 0)"

text \<open>The files of a tree, in the order of the child lists.\<close>

fun file_nodes :: "node \<Rightarrow> node list" where
  "file_nodes (Node nm d chs sz) =
     (if \<not> d then [Node nm d chs sz]
      else case chs of None \<Rightarrow> [] | Some cs \<Rightarrow> concat (map file_nodes cs))"

text \<open>
  \<open>all_depths_le m d t\<close>: every entry of the tree \<open>t\<close> lies at depth at most \<open>m\<close>, the
  root of \<open>t\<close> being at depth \<open>d\<close>.
\<close>

fun all_depths_le :: "int \<Rightarrow> int \<Rightarrow> node \<Rightarrow> bool" where
  "all_depths_le m d (Node nm dr chs sz) =
     (d \<le> m \<and> (case chs of None \<Rightarrow> True | Some cs \<Rightarrow> list_all (all_depths_le m (d + 1)) cs))"

section \<open>Reparse resolver\<close>

text \<open>\<open>s.rstrip(c)\<close> for a single character \<open>c\<close>.\<close>

definition rstrip :: "nat \<Rightarrow> pystr \<Rightarrow> pystr" where
  "rstrip c s = rev (dropWhile (\<lambda>x. x = c) (rev s))"

text \<open>\<open>sub in s\<close>: \<open>sub\<close> occurs in \<open>s\<close> as a contiguous substring.\<close>

fun contains :: "pystr \<Rightarrow> pystr \<Rightarrow> bool" where
  "contains sub [] = (sub = [])"
| "contains sub (c # cs) = (take (length sub) (c # cs) = sub \<or> contains sub cs)"

text \<open>
  \<open>re.search(r'([A-Z]:)', s)\<close>: the leftmost capital letter (code points 65 to 90)
  followed by a colon (code point 58); the result is \<open>m.group(1)\<close>, or \<open>None\<close> when
  there is no match.
\<close>

definition is_AZ :: "nat \<Rightarrow> bool" where
  "is_AZ c = (65 \<le> c \<and> c \<le> 90)"

definition colon :: nat where
  "colon = 58"

fun search_drive :: "pystr \<Rightarrow> pystr option" where
  "search_drive (a # b # cs) =
     (if is_AZ a \<and> b = colon then Some [a, b] else search_drive (b # cs))"
| "search_drive [a] = None"
| "search_drive [] = None"

text \<open>
  The backslash character, and the three literals of line 90. They are raw string
  literals, so each pair of backslashes in the source text is two characters of the
  string: \<open>r'UNC\\'\<close> has five characters, \<open>r'\\??\\UNC\\'\<close> eleven and
  \<open>r'\\?\\UNC\\'\<close> ten.
\<close>

definition bs :: nat where
  "bs = 92"

definition lit_UNC :: pystr where
  "lit_UNC = str ''UNC'' @ [bs, bs]"

definition lit_qq_UNC :: pystr where
  "lit_qq_UNC = [bs, bs] @ str ''??'' @ [bs, bs] @ str ''UNC'' @ [bs, bs]"

definition lit_q_UNC :: pystr where
  "lit_q_UNC = [bs, bs] @ str ''?'' @ [bs, bs] @ str ''UNC'' @ [bs, bs]"

text \<open>
  Lines 84 to 100 of \<open>is_reparse_point_target_same_volume\<close>: the decision taken from the
  substitute name \<open>target\<close> and the \<open>volume_letter\<close> argument. \<open>upper\<close> stands for
  \<open>str.upper\<close>, whose tables of Unicode case mappings are not in the source: it is a
  parameter. The argument \<open>volume_letter\<close> is \<open>None\<close> when \<open>build_tree\<close> is called
  without \<open>root_volume_letter\<close>; \<open>None.rstrip\<close> raises \<open>AttributeError\<close>.
\<close>

definition target_same_volume ::
    "(pystr \<Rightarrow> pystr) \<Rightarrow> pystr \<Rightarrow> pystr option \<Rightarrow> py_error + bool" where
  "target_same_volume upper target volume_letter =
     (let target_upper = upper target in
      case volume_letter of
        None \<Rightarrow> Inl AttributeError
      | Some v \<Rightarrow>
          (let vol_upper = upper (rstrip colon v) @ [colon] in
           if contains lit_UNC target_upper \<or> contains lit_qq_UNC target_upper
              \<or> contains lit_q_UNC target_upper
           then Inr False
           else case search_drive target_upper of
                  Some g \<Rightarrow> Inr (g = vol_upper)
                | None \<Rightarrow>
                    if contains (str ''VOLUME{'') target_upper then Inr False else Inr False))"

text \<open>
  The structure \<open>GENERIC_REPARSE_BUFFER\<close>, its fields as the Python values that ctypes
  returns for them. \<open>PathBuffer\<close> is an array of \<open>MAX_REPARSE_SIZE // 2\<close> wide characters;
  \<open>ctypes.windll\<close> exists on Windows only, where a wide character has two bytes.
\<close>

definition MAX_REPARSE_SIZE :: nat where
  "MAX_REPARSE_SIZE = 16 * 1024"

definition sizeof_c_wchar :: nat where
  "sizeof_c_wchar = 2"

record GENERIC_REPARSE_BUFFER =
  ReparseTag :: nat
  ReparseDataLength :: nat
  Reserved :: nat
  SubstituteNameOffset :: nat
  SubstituteNameLength :: nat
  PrintNameOffset :: nat
  PrintNameLength :: nat
  PathBuffer :: pystr

text \<open>
  \<open>ctypes.sizeof(GENERIC_REPARSE_BUFFER)\<close>: a \<open>DWORD\<close>, six \<open>USHORT\<close> and the array; no
  padding is needed.
\<close>

definition sizeof_GENERIC_REPARSE_BUFFER :: nat where
  "sizeof_GENERIC_REPARSE_BUFFER = 4 + 6 * 2 + (MAX_REPARSE_SIZE div 2) * sizeof_c_wchar"

text \<open>The unsigned little-endian value of the \<open>n\<close> bytes at offset \<open>off\<close>.\<close>

definition le_uint :: "8 word list \<Rightarrow> nat \<Rightarrow> nat \<Rightarrow> nat" where
  "le_uint buf off n = foldr (\<lambda>b acc. unat b + 256 * acc) (take n (drop off buf)) 0"

text \<open>
  \<open>GENERIC_REPARSE_BUFFER.from_buffer_copy(buf)\<close>: \<open>ValueError\<close> when the buffer is
  shorter than the structure, otherwise the fields read at their offsets.
\<close>

definition from_buffer_copy :: "8 word list \<Rightarrow> py_error + GENERIC_REPARSE_BUFFER" where
  "from_buffer_copy buf =
     (if length buf < sizeof_GENERIC_REPARSE_BUFFER then Inl ValueError
      else Inr
        \<lparr>ReparseTag = le_uint buf 0 4,
         ReparseDataLength = le_uint buf 4 2,
         Reserved = le_uint buf 6 2,
         SubstituteNameOffset = le_uint buf 8 2,
         SubstituteNameLength = le_uint buf 10 2,
         PrintNameOffset = le_uint buf 12 2,
         PrintNameLength = le_uint buf 14 2,
         PathBuffer =
           map (\<lambda>i. le_uint buf (16 + sizeof_c_wchar * i) sizeof_c_wchar)
             [0 ..< MAX_REPARSE_SIZE div 2]\<rparr>)"

text \<open>
  \<open>buf = ctypes.create_string_buffer(MAX_REPARSE_SIZE)\<close> after \<open>DeviceIoControl\<close> has
  written \<open>written\<close> into it: \<open>MAX_REPARSE_SIZE\<close> bytes, zero where nothing was written.
\<close>

definition reparse_buffer :: "8 word list \<Rightarrow> 8 word list" where
  "reparse_buffer written = take MAX_REPARSE_SIZE (written @ replicate MAX_REPARSE_SIZE 0)"

text \<open>An entry yielded by \<open>os.scandir\<close>, with the outcome of the two calls made on it.\<close>

record dir_entry =
  entry_path :: pystr
  entry_name :: pystr
  entry_is_dir :: "py_error + bool"
  entry_stat_size :: "py_error + int"

text \<open>
  The operating system and the libraries, as the scanner sees them. Every field is the
  Python value the call of that name returns:
  \<^item> \<open>str_upper\<close> is \<open>str.upper\<close>;
  \<^item> \<open>splitdrive_normpath p\<close> is the drive of \<open>os.path.splitdrive(os.path.normpath(p))\<close>;
  \<^item> \<open>GetFileAttributesW\<close> returns an integer;
  \<^item> \<open>CreateFileW\<close> returns an integer handle, or \<open>None\<close> for a null handle;
    \<open>INVALID_HANDLE_VALUE\<close> is \<open>ctypes.c_void_p(-1).value\<close>;
  \<^item> \<open>DeviceIoControl h\<close> is the returned status together with the bytes that the call
    writes into the buffer;
  \<^item> \<open>scandir p\<close> is \<open>Inl e\<close> when \<open>os.scandir(p)\<close> raises \<open>e\<close>, and otherwise the
    entries the iterator yields, with the exception that ends the iteration, if any.
\<close>

record os_env =
  str_upper :: "pystr \<Rightarrow> pystr"
  splitdrive_normpath :: "pystr \<Rightarrow> pystr"
  basename :: "pystr \<Rightarrow> pystr"
  isdir :: "pystr \<Rightarrow> bool"
  GetFileAttributesW :: "pystr \<Rightarrow> int"
  CreateFileW :: "pystr \<Rightarrow> int option"
  INVALID_HANDLE_VALUE :: int
  DeviceIoControl :: "int \<Rightarrow> int \<times> 8 word list"
  scandir :: "pystr \<Rightarrow> py_error + dir_entry list \<times> py_error option"

definition FILE_ATTRIBUTE_REPARSE_POINT :: int where
  "FILE_ATTRIBUTE_REPARSE_POINT = 0x400"

definition INVALID_FILE_ATTRIBUTES :: int where
  "INVALID_FILE_ATTRIBUTES = 0xFFFFFFFF"

text \<open>\<open>_get_attrs\<close>.\<close>

definition get_attrs :: "os_env \<Rightarrow> pystr \<Rightarrow> int option" where
  "get_attrs env path =
     (let a = GetFileAttributesW env path in
      if a = INVALID_FILE_ATTRIBUTES then None else Some a)"

definition is_reparse_point :: "os_env \<Rightarrow> pystr \<Rightarrow> bool" where
  "is_reparse_point env path =
     (case get_attrs env path of
        None \<Rightarrow> False
      | Some a \<Rightarrow> and a FILE_ATTRIBUTE_REPARSE_POINT \<noteq> 0)"

text \<open>
  \<open>is_reparse_point_target_same_volume\<close>. Whatever the \<open>try\<close> of lines 79 to 86
  raises ends in \<open>return False\<close>.
\<close>

definition is_reparse_point_target_same_volume ::
    "os_env \<Rightarrow> pystr \<Rightarrow> pystr option \<Rightarrow> py_error + bool" where
  "is_reparse_point_target_same_volume env path volume_letter =
     (case get_attrs env path of
        None \<Rightarrow> Inr False
      | Some attrs \<Rightarrow>
          if and attrs FILE_ATTRIBUTE_REPARSE_POINT = 0 then Inr True
          else case CreateFileW env path of
                 None \<Rightarrow> Inr False
               | Some h \<Rightarrow>
                   if h = INVALID_HANDLE_VALUE env then Inr False
                   else let (ok, written) = DeviceIoControl env h;
                            buf = reparse_buffer written
                        in if ok = 0 then Inr False
                           else case from_buffer_copy buf of
                                  Inl e \<Rightarrow> Inr False
                                | Inr rdb \<Rightarrow>
                                    (let sub_off = SubstituteNameOffset rdb div 2;
                                         sub_len = SubstituteNameLength rdb div 2;
                                         target = take sub_len (drop sub_off (PathBuffer rdb))
                                     in target_same_volume (str_upper env) target
                                          volume_letter))"

section \<open>Tree builder\<close>

text \<open>Lines 144 to 145 and line 148: the name of the root node and of any other node.\<close>

definition root_name :: "os_env \<Rightarrow> pystr \<Rightarrow> pystr" where
  "root_name env path =
     (let drive = splitdrive_normpath env path; r = rstrip bs drive in
      if r = [] then path else r)"

definition node_name :: "os_env \<Rightarrow> pystr \<Rightarrow> pystr" where
  "node_name env path = (let b = basename env path in if b = [] then path else b)"

text \<open>Lines 143 to 149: the node of the call; the root is a directory whatever the path is.\<close>

definition new_node :: "os_env \<Rightarrow> pystr \<Rightarrow> node option \<Rightarrow> node" where
  "new_node env path parent =
     (case parent of
        None \<Rightarrow> Node_init (root_name env path) True 0
      | Some p \<Rightarrow> Node_init (node_name env path) (isdir env path) 0)"

text \<open>
  The test made at lines 151 to 154 on the path itself and at lines 163 to 166 on an
  entry: \<open>Inr False\<close> when the path is a reparse point that does not resolve to the same
  volume, \<open>Inl e\<close> when the resolver raises.
\<close>

definition reparse_gate :: "os_env \<Rightarrow> pystr \<Rightarrow> pystr option \<Rightarrow> py_error + bool" where
  "reparse_gate env path vol =
     (if is_reparse_point env path then is_reparse_point_target_same_volume env path vol
      else Inr True)"

text \<open>
  \<open>build_tree\<close>, with the body of its \<open>for\<close> loop as \<open>scan_entries\<close>. \<open>scan_entries\<close>
  returns \<open>Inl e\<close> for an exception that leaves the loop (everything that the
  \<open>except PermissionError: continue\<close> of line 180 does not catch). In \<open>build_tree\<close>
  every exception ends in \<open>return None\<close>: the \<open>PermissionError\<close> of \<open>os.scandir\<close> or of
  its iterator at line 183, any other at line 186. The recursion is bounded by
  \<open>max_depth - depth\<close>.
\<close>

function build_tree ::
    "os_env \<Rightarrow> pystr \<Rightarrow> node option \<Rightarrow> int \<Rightarrow> int \<Rightarrow> pystr option \<Rightarrow> node option"
  and scan_entries ::
    "os_env \<Rightarrow> dir_entry list \<Rightarrow> node \<Rightarrow> int \<Rightarrow> int \<Rightarrow> pystr option \<Rightarrow> py_error + node"
  where
  "build_tree env path parent depth max_depth root_volume_letter =
     (let node = new_node env path parent
      in case reparse_gate env path root_volume_letter of
           Inl e \<Rightarrow> None
         | Inr same \<Rightarrow>
             if \<not> same then None
             else if is_dir node \<and> depth < max_depth then
               (case scandir env path of
                  Inl e \<Rightarrow> None
                | Inr (entries, raised) \<Rightarrow>
                    (case scan_entries env entries node depth max_depth root_volume_letter of
                       Inl e \<Rightarrow> None
                     | Inr node' \<Rightarrow> (case raised of Some e \<Rightarrow> None | None \<Rightarrow> Some node')))
             else Some node)"
| "scan_entries env [] node depth max_depth root_volume_letter = Inr node"
| "scan_entries env (entry # rest) node depth max_depth root_volume_letter =
     (case entry_is_dir entry of
        Inl e \<Rightarrow>
          if e = PermissionError
          then scan_entries env rest node depth max_depth root_volume_letter
          else Inl e
      | Inr d \<Rightarrow>
          if d then
            (case reparse_gate env (entry_path entry) root_volume_letter of
               Inl e \<Rightarrow>
                 if e = PermissionError
                 then scan_entries env rest node depth max_depth root_volume_letter
                 else Inl e
             | Inr same \<Rightarrow>
                 if \<not> same
                 then scan_entries env rest node depth max_depth root_volume_letter
                 else (case build_tree env (entry_path entry) (Some node) (depth + 1) max_depth
                              root_volume_letter of
                         None \<Rightarrow> scan_entries env rest node depth max_depth root_volume_letter
                       | Some child \<Rightarrow>
                           scan_entries env rest (add_child node child) depth max_depth
                             root_volume_letter))
          else
            (let sz = (case entry_stat_size entry of Inl e \<Rightarrow> 0 | Inr s \<Rightarrow> s) in
             if sz > 0
             then scan_entries env rest (add_child node (Node_init (entry_name entry) False sz))
                    depth max_depth root_volume_letter
             else scan_entries env rest node depth max_depth root_volume_letter))"
  by pat_completeness auto
termination
  apply (relation "measures [
      (\<lambda>x. case x of
             Inl (env, path, parent, depth, max_depth, v) \<Rightarrow> 2 * nat (max_depth - depth)
           | Inr (env, entries, node, depth, max_depth, v) \<Rightarrow>
               2 * nat (max_depth - depth - 1) + 1),
      (\<lambda>x. case x of
             Inl (env, path, parent, depth, max_depth, v) \<Rightarrow> 0
           | Inr (env, entries, node, depth, max_depth, v) \<Rightarrow> Suc (length entries))]")
  apply auto
  done

section \<open>Treemap layout\<close>

subsection \<open>The quotient of line 417 and line 431\<close>

text \<open>
  \<open>int(width * node.size / total_size)\<close> divides two Python integers with \<open>/\<close>: the
  result is the binary64 number nearest to the exact quotient (ties to the even
  significand), and \<open>int\<close> truncates it towards zero. A binary64 number is held as a pair
  \<open>(m, e)\<close> of integers, its value being \<open>m * 2 ^ e\<close>. For an integer \<open>e\<close> one of
  \<open>2 ^ nat e\<close> and \<open>2 ^ nat (- e)\<close> is 1, so that \<open>p * 2 ^ nat (- e)\<close> over
  \<open>q * 2 ^ nat e\<close> is \<open>p / q\<close> divided by \<open>2 ^ e\<close>.

  \<open>round_half_even p q\<close> is the integer nearest to \<open>p / q\<close> for \<open>q > 0\<close>, and
  \<open>quotient_exponent A B\<close> is the integer \<open>L\<close> with \<open>2 ^ L \<le> A / B < 2 ^ (L + 1)\<close> for
  positive \<open>A\<close> and \<open>B\<close>.
\<close>

definition round_half_even :: "int \<Rightarrow> int \<Rightarrow> int" where
  "round_half_even p q =
     (let f = p div q; r = p mod q in
      if 2 * r < q then f
      else if q < 2 * r then f + 1
      else if even f then f else f + 1)"

definition quotient_exponent :: "int \<Rightarrow> int \<Rightarrow> int" where
  "quotient_exponent A B =
     (let k = bitlen A - bitlen B in
      if B * 2 ^ nat k \<le> A * 2 ^ nat (- k) then k else k - 1)"

text \<open>
  \<open>a / b\<close>: \<open>ZeroDivisionError\<close> for \<open>b = 0\<close>; otherwise the quotient rounded to 53
  significant bits (fewer below \<open>2 ^ -1022\<close>, where the exponent stays at \<open>-1074\<close>), and
  \<open>OverflowError\<close> when the rounded value reaches \<open>2 ^ 1024\<close>.
\<close>

definition py_truediv :: "int \<Rightarrow> int \<Rightarrow> py_error + int \<times> int" where
  "py_truediv a b =
     (if b = 0 then Inl ZeroDivisionError
      else if a = 0 then Inr (0, 0)
      else let A = \<bar>a\<bar>; B = \<bar>b\<bar>;
               e = max (quotient_exponent A B - 52) (- 1074);
               m = round_half_even (A * 2 ^ nat (- e)) (B * 2 ^ nat e)
           in if 2 ^ 1024 * 2 ^ nat (- e) \<le> m * 2 ^ nat e then Inl OverflowError
              else Inr (sgn a * sgn b * m, e))"

text \<open>\<open>int(x)\<close> for a binary64 number \<open>x\<close>.\<close>

definition py_int :: "int \<times> int \<Rightarrow> int" where
  "py_int x = (case x of (m, e) \<Rightarrow> sgn m * ((\<bar>m\<bar> * 2 ^ nat e) div 2 ^ nat (- e)))"

text \<open>\<open>max(1, int(dimension * size / total_size))\<close>.\<close>

definition node_share :: "int \<Rightarrow> int \<Rightarrow> int \<Rightarrow> py_error + int" where
  "node_share dimension sz total_size =
     (case py_truediv (dimension * sz) total_size of
        Inl e \<Rightarrow> Inl e
      | Inr q \<Rightarrow> Inr (max 1 (py_int q)))"

subsection \<open>The strip loop\<close>

text \<open>
  The two loops of \<open>draw_treemap\<close> (lines 411 to 422 along the width, lines 425 to 436
  along the height) do the same arithmetic on \<open>dimension\<close> (\<open>width\<close> or \<open>height\<close>),
  \<open>current\<close> (\<open>current_x\<close> or \<open>current_y\<close>) and \<open>remaining\<close> (\<open>remaining_width\<close> or
  \<open>remaining_height\<close>). None of it depends on what the calls of \<open>draw_node_recursive\<close>
  draw, so \<open>strip_split\<close> runs the arithmetic of the whole loop: it returns, for each
  iteration, the node, the value of \<open>current\<close> and the share (\<open>node_width\<close> or
  \<open>node_height\<close>) of that iteration, and the exception that ended the loop, if any. The
  last node (\<open>i == len(nodes) - 1\<close>) is the one with nothing after it.
\<close>

fun strip_split ::
    "int \<Rightarrow> int \<Rightarrow> int \<Rightarrow> int \<Rightarrow> node list \<Rightarrow> (node \<times> int \<times> int) list \<times> py_error option" where
  "strip_split dimension total_size current remaining [] = ([], None)"
| "strip_split dimension total_size current remaining (node # rest) =
     (if rest = [] then ([(node, current, remaining)], None)
      else case node_share dimension (size_field node) total_size of
             Inl e \<Rightarrow> ([], Some e)
           | Inr node_extent \<Rightarrow>
               (let (calls, raised) =
                      strip_split dimension total_size
                        (if node_extent > 0 then current + node_extent else current)
                        (remaining - node_extent) rest
                in ((node, current, node_extent) # calls, raised)))"





subsection \<open>Placement\<close>

text \<open>
  A placement is an element of \<open>self.rectangles\<close>: \<open>(node, x1, y1, x2, y2)\<close>. The drawing
  functions take the list and return it extended, together with the exception that
  interrupted them, if any; what was appended before the exception stays in the list.
  The calls to the canvas draw what the placement says and are left out.
\<close>

type_synonym placement = "node \<times> int \<times> int \<times> int \<times> int"

text \<open>
  \<open>sorted(..., key=lambda ch: ch.size, reverse=True)\<close> is stable: children of equal size
  keep their order.
\<close>

definition sorted_children :: "node list \<Rightarrow> node list" where
  "sorted_children cs = sort_key (\<lambda>ch. - size_field ch) (filter (\<lambda>ch. size_field ch > 0) cs)"

function draw_node_recursive ::
    "node \<Rightarrow> int \<Rightarrow> int \<Rightarrow> int \<Rightarrow> int \<Rightarrow> int \<Rightarrow> int \<Rightarrow> placement list
       \<Rightarrow> placement list \<times> py_error option"
  and draw_treemap ::
    "node list \<Rightarrow> int \<Rightarrow> int \<Rightarrow> int \<Rightarrow> int \<Rightarrow> int \<Rightarrow> int \<Rightarrow> placement list
       \<Rightarrow> placement list \<times> py_error option"
  and draw_strips ::
    "bool \<Rightarrow> (node \<times> int \<times> int) list \<Rightarrow> int \<Rightarrow> int \<Rightarrow> int \<Rightarrow> int \<Rightarrow> int \<Rightarrow> int
       \<Rightarrow> placement list \<Rightarrow> placement list \<times> py_error option"
  where
  "draw_node_recursive node x y width height level max_draw_depth rectangles =
     (if width < 2 \<or> height < 2 then (rectangles, None)
      else let rectangles = rectangles @ [(node, x, y, x + width, y + height)] in
           if is_dir node \<and> children node \<noteq> None \<and> children node \<noteq> Some []
              \<and> level < max_draw_depth
           then let total_size =
                      sum_list (map size_field
                        (filter (\<lambda>child. size_field child > 0) (the (children node))))
                in if total_size = 0 then (rectangles, None)
                   else draw_treemap (sorted_children (the (children node)))
                          (x + 2) (y + 2) (width - 4) (height - 4) (level + 1) max_draw_depth
                          rectangles
           else (rectangles, None))"
| "draw_treemap nodes x y width height level max_draw_depth rectangles =
     (if nodes = [] \<or> width < 4 \<or> height < 4 then (rectangles, None)
      else let total_size = sum_list (map size_field nodes) in
           if total_size = 0 then (rectangles, None)
           else let vertical_split = (width > height) in
                if length nodes = 1
                then draw_node_recursive (hd nodes) x y width height level max_draw_depth
                       rectangles
                else let (calls, raised) =
                           (if vertical_split then strip_split width total_size x width nodes
                            else strip_split height total_size y height nodes);
                         (rectangles, interrupted) =
                           draw_strips vertical_split calls x y width height level
                             max_draw_depth rectangles
                     in (rectangles, if interrupted = None then raised else interrupted))"
| "draw_strips vertical_split [] x y width height level max_draw_depth rectangles =
     (rectangles, None)"
| "draw_strips vertical_split ((node, current, extent) # calls) x y width height level
       max_draw_depth rectangles =
     (if extent > 0 then
        (case (if vertical_split
               then draw_node_recursive node current y extent height level max_draw_depth
                      rectangles
               else draw_node_recursive node x current width extent level max_draw_depth
                      rectangles) of
           (rectangles, Some e) \<Rightarrow> (rectangles, Some e)
         | (rectangles, None) \<Rightarrow>
             draw_strips vertical_split calls x y width height level max_draw_depth rectangles)
      else draw_strips vertical_split calls x y width height level max_draw_depth rectangles)"
  by pat_completeness auto
termination
  apply (relation "measures [
      (\<lambda>x. case x of
             Inl (node, x, y, width, height, level, max_draw_depth, r) \<Rightarrow>
               3 * nat (max_draw_depth - level)
           | Inr (Inl (nodes, x, y, width, height, level, max_draw_depth, r)) \<Rightarrow>
               3 * nat (max_draw_depth - level) + 2
           | Inr (Inr (v, calls, x, y, width, height, level, max_draw_depth, r)) \<Rightarrow>
               3 * nat (max_draw_depth - level) + 1),
      (\<lambda>x. case x of
             Inl (node, x, y, width, height, level, max_draw_depth, r) \<Rightarrow> 0
           | Inr (Inl (nodes, x, y, width, height, level, max_draw_depth, r)) \<Rightarrow> 0
           | Inr (Inr (v, calls, x, y, width, height, level, max_draw_depth, r)) \<Rightarrow>
               length calls)]")
  apply auto
  done

text \<open>
  The condition on one placement that the layout is checked against: the rectangle is at
  least two units wide and two units high.
\<close>

definition rect_ok :: "placement \<Rightarrow> bool" where
  "rect_ok p = (case p of (node, x1, y1, x2, y2) \<Rightarrow> x2 - x1 \<ge> 2 \<and> y2 - y1 \<ge> 2)"

text \<open>A drawing function only appends to the list, and what it appends satisfies \<open>rect_ok\<close>.\<close>

definition extends_ok :: "placement list \<Rightarrow> placement list \<times> py_error option \<Rightarrow> bool" where
  "extends_ok rects res = (\<exists>added. fst res = rects @ added \<and> list_all rect_ok added)"

section \<open>Concrete inputs\<close>

text \<open>\<open>str.upper\<close> on strings of ASCII characters, for the concrete environments.\<close>

definition ascii_upper :: "pystr \<Rightarrow> pystr" where
  "ascii_upper s = map (\<lambda>c. if 97 \<le> c \<and> c \<le> 122 then c - 32 else c) s"

text \<open>
  A volume \<open>C:\<close> with a directory \<open>a\<close> and the files \<open>f\<close> (7 bytes) and \<open>z\<close> (empty);
  \<open>a\<close> holds a directory \<open>b\<close>, which cannot be listed, and the file \<open>g\<close> (3 bytes).
  No path is a reparse point (the attributes are \<open>FILE_ATTRIBUTE_DIRECTORY\<close>).
\<close>

definition root_path :: pystr where
  "root_path = str ''C:'' @ [bs]"

definition path_a :: pystr where
  "path_a = root_path @ str ''a''"

definition path_b :: pystr where
  "path_b = path_a @ [bs] @ str ''b''"

definition file_entry :: "pystr \<Rightarrow> pystr \<Rightarrow> int \<Rightarrow> dir_entry" where
  "file_entry dir nm sz =
     \<lparr>entry_path = dir @ nm, entry_name = nm, entry_is_dir = Inr False,
      entry_stat_size = Inr sz\<rparr>"

definition dir_entry :: "pystr \<Rightarrow> pystr \<Rightarrow> dir_entry" where
  "dir_entry dir nm =
     \<lparr>entry_path = dir @ nm, entry_name = nm, entry_is_dir = Inr True,
      entry_stat_size = Inr 0\<rparr>"

definition entry_b :: dir_entry where
  "entry_b = dir_entry (path_a @ [bs]) (str ''b'')"

definition entry_g :: dir_entry where
  "entry_g = file_entry (path_a @ [bs]) (str ''g'') 3"

definition env_example :: os_env where
  "env_example =
     \<lparr>str_upper = ascii_upper,
      splitdrive_normpath = take 2,
      basename = (\<lambda>p. rev (takeWhile (\<lambda>c. c \<noteq> bs) (rev p))),
      isdir = (\<lambda>p. p = root_path \<or> p = path_a \<or> p = path_b),
      GetFileAttributesW = (\<lambda>p. 0x10),
      CreateFileW = (\<lambda>p. None),
      INVALID_HANDLE_VALUE = 0xFFFFFFFFFFFFFFFF,
      DeviceIoControl = (\<lambda>h. (0, [])),
      scandir = (\<lambda>p.
        if p = root_path
        then Inr ([dir_entry root_path (str ''a''), file_entry root_path (str ''f'') 7,
                   file_entry root_path (str ''z'') 0], None)
        else if p = path_a then Inr ([entry_b, entry_g], None)
        else if p = path_b then Inl PermissionError
        else Inl OSError)\<rparr>"

text \<open>
  A reparse point \<open>C:\j\<close> whose substitute name is \<open>\??\UNC\srv\C:\<close>: the handle opens
  and the device control succeeds, writing the header (substitute name at offset 0 with
  28 bytes, print name at offset 28 with 0 bytes) and the 14 characters of the name, two
  bytes each.
\<close>

definition unc_marker :: pystr where
  "unc_marker = [bs] @ str ''??'' @ [bs] @ str ''UNC'' @ [bs]"

definition unc_target :: pystr where
  "unc_target = unc_marker @ str ''srv'' @ [bs] @ str ''C:''"

definition path_j :: pystr where
  "path_j = root_path @ str ''j''"

definition unc_reparse_data :: "8 word list" where
  "unc_reparse_data =
     [0x03, 0x00, 0x00, 0xA0, 36, 0, 0, 0, 0, 0, 28, 0, 28, 0, 0, 0]
     @ concat (map (\<lambda>c. [of_nat c, 0]) unc_target)"

text \<open>The substitute name held in reparse data: the string the header points at.\<close>

definition substitute_name :: "8 word list \<Rightarrow> pystr" where
  "substitute_name data =
     (let sub_off = le_uint data 8 2 div 2; sub_len = le_uint data 10 2 div 2 in
      take sub_len (drop sub_off
        (map (\<lambda>i. le_uint data (16 + 2 * i) 2) [0 ..< (length data - 16) div 2])))"

definition env_unc :: os_env where
  "env_unc =
     env_example
       \<lparr>GetFileAttributesW := (\<lambda>p. 0x410),
        CreateFileW := (\<lambda>p. Some 4),
        DeviceIoControl := (\<lambda>h. (1, unc_reparse_data))\<rparr>"

text \<open>Trees for the aggregator and the layout.\<close>

definition file_f :: node where
  "file_f = Node (str ''f'') False None 7"

definition file_g :: node where
  "file_g = Node (str ''g'') False None 3"

definition node_a :: node where
  "node_a = Node (str ''a'') True (Some []) 0"

definition root_only :: node where
  "root_only = Node (str ''C:'') True (Some []) 0"

definition tree_built :: node where
  "tree_built =
     Node (str ''C:'') True (Some [Node (str ''a'') True (Some [file_g]) 0, file_f]) 0"

definition tree_aggregated :: node where
  "tree_aggregated =
     Node (str ''C:'') True (Some [Node (str ''a'') True (Some [file_g]) 3, file_f]) 10"

definition tree_depth_1 :: node where
  "tree_depth_1 = Node (str ''C:'') True (Some [node_a, file_f]) 0"

definition dir_single :: node where
  "dir_single = Node (str ''d'') True (Some [file_f]) 7"

definition dir_nested :: node where
  "dir_nested = Node (str ''n'') True (Some [dir_single]) 7"





section \<open>Size aggregator\<close>

declare build_tree.simps [simp del] draw_node_recursive.simps [simp del]
  draw_treemap.simps [simp del]

lemma aggregate_size_cases:
  assumes "aggregate_size (Node nm d chs sz) = Inr (t', r)"
  obtains (leaf) "\<not> d" "t' = Node nm d chs sz" "r = sz"
  | (dir) cs cs' where "d" "chs = Some cs" "aggregate_children cs 0 = Inr (cs', r)"
      "t' = Node nm d (Some cs') r"
proof (cases d)
  case True
  note d = this
  show ?thesis
  proof (cases chs)
    case None
    with d assms show ?thesis by simp
  next
    case (Some cs)
    with d assms obtain cs' where
      "aggregate_children cs 0 = Inr (cs', r)" "t' = Node nm d (Some cs') r"
      by (simp split: sum.splits prod.splits)
    with d Some show ?thesis by (rule dir)
  qed
next
  case False
  with assms have "t' = Node nm d chs sz" "r = sz" by auto
  with False show ?thesis by (rule leaf)
qed

lemma aggregate_children_cases:
  assumes "aggregate_children (ch # rest) tot = Inr (cs', tot')"
  obtains ch' t rest' where "aggregate_size ch = Inr (ch', t)"
    "aggregate_children rest (tot + t) = Inr (rest', tot')" "cs' = ch' # rest'"
  using assms by (auto split: sum.splits prod.splits)

lemma aggregate_sound:
  "aggregate_size t = Inr (t', r) \<Longrightarrow> size_field t' = r \<and> dir_sizes_ok t'"
  "aggregate_children cs tot = Inr (cs', tot') \<Longrightarrow>
     tot' = tot + sum_list (map size_field cs') \<and> list_all dir_sizes_ok cs'"
proof (induction t and cs tot arbitrary: t' r and cs' tot'
    rule: aggregate_size_aggregate_children.induct)
  case (1 nm d chs sz)
  from "1.prems" show ?case
  proof (cases rule: aggregate_size_cases)
    case leaf
    then show ?thesis by simp
  next
    case (dir cs cs')
    from "1.IH"[OF _ dir(2) dir(3)] dir(1)
    have "r = sum_list (map size_field cs') \<and> list_all dir_sizes_ok cs'"
      by simp
    with dir show ?thesis by simp
  qed
next
  case (2 tot)
  then show ?case by simp
next
  case (3 ch rest tot)
  from "3.prems" obtain ch' t rest' where a: "aggregate_size ch = Inr (ch', t)"
    and b: "aggregate_children rest (tot + t) = Inr (rest', tot')" and c: "cs' = ch' # rest'"
    by (rule aggregate_children_cases)
  from "3.IH"(1)[OF a] have h1: "size_field ch' = t" "dir_sizes_ok ch'" by simp_all
  from "3.IH"(2)[OF a refl b] have h2: "tot' = tot + t + sum_list (map size_field rest')"
    "list_all dir_sizes_ok rest'" by simp_all
  from h1 h2 c show ?case by simp
qed

lemma aggregate_again:
  "aggregate_size t = Inr (t', r) \<Longrightarrow> aggregate_size t' = Inr (t', r)"
  "aggregate_children cs tot = Inr (cs', tot') \<Longrightarrow>
     aggregate_children cs' tot2 = Inr (cs', tot2 + (tot' - tot))"
proof (induction t and cs tot arbitrary: t' r and cs' tot' tot2
    rule: aggregate_size_aggregate_children.induct)
  case (1 nm d chs sz)
  from "1.prems" show ?case
  proof (cases rule: aggregate_size_cases)
    case leaf
    then show ?thesis by simp
  next
    case (dir cs cs')
    from "1.IH"[OF _ dir(2) dir(3), of 0] dir(1)
    have "aggregate_children cs' 0 = Inr (cs', r)"
      by simp
    with dir show ?thesis by simp
  qed
next
  case (2 tot)
  then show ?case by simp
next
  case (3 ch rest tot)
  from "3.prems" obtain ch' t rest' where a: "aggregate_size ch = Inr (ch', t)"
    and b: "aggregate_children rest (tot + t) = Inr (rest', tot')" and c: "cs' = ch' # rest'"
    by (rule aggregate_children_cases)
  from "3.IH"(1)[OF a] have h1: "aggregate_size ch' = Inr (ch', t)" .
  from "3.IH"(2)[OF a refl b, of "tot2 + t"]
  have h2: "aggregate_children rest' (tot2 + t) = Inr (rest', tot2 + t + (tot' - (tot + t)))" .
  from h1 h2 c show ?case by simp
qed

lemma aggregate_frame:
  "aggregate_size t = Inr (t', r) \<Longrightarrow>
     erase_dir_sizes t' = erase_dir_sizes t \<and> file_nodes t' = file_nodes t"
  "aggregate_children cs tot = Inr (cs', tot') \<Longrightarrow>
     map erase_dir_sizes cs' = map erase_dir_sizes cs \<and>
     concat (map file_nodes cs') = concat (map file_nodes cs)"
proof (induction t and cs tot arbitrary: t' r and cs' tot'
    rule: aggregate_size_aggregate_children.induct)
  case (1 nm d chs sz)
  from "1.prems" show ?case
  proof (cases rule: aggregate_size_cases)
    case leaf
    then show ?thesis by simp
  next
    case (dir cs cs')
    from "1.IH"[OF _ dir(2) dir(3)] dir(1)
    have "map erase_dir_sizes cs' = map erase_dir_sizes cs \<and>
      concat (map file_nodes cs') = concat (map file_nodes cs)"
      by simp
    with dir show ?thesis by simp
  qed
next
  case (2 tot)
  then show ?case by simp
next
  case (3 ch rest tot)
  from "3.prems" obtain ch' t rest' where a: "aggregate_size ch = Inr (ch', t)"
    and b: "aggregate_children rest (tot + t) = Inr (rest', tot')" and c: "cs' = ch' # rest'"
    by (rule aggregate_children_cases)
  from "3.IH"(1)[OF a] "3.IH"(2)[OF a refl b] c show ?case by simp
qed

lemma aggregate_keeps_inv:
  "aggregate_size t = Inr (t', r) \<Longrightarrow> children_iff_dir t' = children_iff_dir t"
  "aggregate_children cs tot = Inr (cs', tot') \<Longrightarrow>
     list_all children_iff_dir cs' = list_all children_iff_dir cs"
proof (induction t and cs tot arbitrary: t' r and cs' tot'
    rule: aggregate_size_aggregate_children.induct)
  case (1 nm d chs sz)
  from "1.prems" show ?case
  proof (cases rule: aggregate_size_cases)
    case leaf
    then show ?thesis by simp
  next
    case (dir cs cs')
    from "1.IH"[OF _ dir(2) dir(3)] dir(1)
    have "list_all children_iff_dir cs' = list_all children_iff_dir cs"
      by simp
    with dir show ?thesis by simp
  qed
next
  case (2 tot)
  then show ?case by simp
next
  case (3 ch rest tot)
  from "3.prems" obtain ch' t rest' where a: "aggregate_size ch = Inr (ch', t)"
    and b: "aggregate_children rest (tot + t) = Inr (rest', tot')" and c: "cs' = ch' # rest'"
    by (rule aggregate_children_cases)
  from "3.IH"(1)[OF a] "3.IH"(2)[OF a refl b] c show ?case by simp
qed

text \<open>On a tree that satisfies the invariant of the data model, aggregation completes.\<close>

lemma aggregate_total:
  "children_iff_dir t \<Longrightarrow> \<exists>t' r. aggregate_size t = Inr (t', r)"
  "list_all children_iff_dir cs \<Longrightarrow> \<exists>cs' r. aggregate_children cs tot = Inr (cs', r)"
proof (induction t and cs tot rule: aggregate_size_aggregate_children.induct)
  case (1 nm d chs sz)
  show ?case
  proof (cases d)
    case True
    with "1.prems" obtain cs where cs: "chs = Some cs" "list_all children_iff_dir cs"
      by (auto split: option.splits)
    from "1.IH"[OF _ cs] True obtain cs' r where "aggregate_children cs 0 = Inr (cs', r)"
      by auto
    with True cs show ?thesis by simp
  next
    case False
    then show ?thesis by simp
  qed
next
  case (2 tot)
  then show ?case by simp
next
  case (3 ch rest tot)
  from "3.prems" have p: "children_iff_dir ch" "list_all children_iff_dir rest" by simp_all
  from "3.IH"(1)[OF p(1)] obtain ch' t where a: "aggregate_size ch = Inr (ch', t)" by auto
  from "3.IH"(2)[OF a refl p(2)] obtain rest' r where
    "aggregate_children rest (tot + t) = Inr (rest', r)" by auto
  with a show ?case by simp
qed

lemma aggregate_tree_built: "aggregate_size tree_built = Inr (tree_aggregated, 10)"
  by code_simp

text \<open>
  C4. For every tree on which \<open>aggregate_size\<close> has run to completion, every directory of
  the resulting tree has as its size the sum of the sizes of its children, at every level
  down to the leaves, and the value returned is the size of the root.
\<close>

theorem aggregate_size_dir_sums:
  "aggregate_size t = Inr (t', r) \<Longrightarrow> dir_sizes_ok t' \<and> size_field t' = r"
  using aggregate_sound(1) by blast

theorem aggregate_size_dir_sums_witness:
  "aggregate_size tree_built = Inr (tree_aggregated, 10) \<and> dir_sizes_ok tree_aggregated
     \<and> size_field tree_aggregated = 10"
  using aggregate_size_dir_sums[OF aggregate_tree_built] aggregate_tree_built by simp

text \<open>
  C7. Aggregation is idempotent: running \<open>aggregate_size\<close> on the tree that a first run
  produced (the sizes of the files being what they were) returns the same tree, so every
  size is what the first run made it, and the same total.
\<close>

theorem aggregate_size_idempotent:
  "aggregate_size t = Inr (t', r) \<Longrightarrow> aggregate_size t' = Inr (t', r)"
  by (rule aggregate_again(1))

theorem aggregate_size_idempotent_witness:
  "aggregate_size tree_built = Inr (tree_aggregated, 10)
     \<and> aggregate_size tree_aggregated = Inr (tree_aggregated, 10)"
  using aggregate_size_idempotent[OF aggregate_tree_built] aggregate_tree_built by simp

text \<open>
  C9. Aggregation never modifies a file: the files of the tree after \<open>aggregate_size\<close>
  are the files of the tree before it, each with the size it had, and the two trees differ
  in nothing but the sizes of directories.
\<close>

theorem aggregate_size_frame:
  "aggregate_size t = Inr (t', r) \<Longrightarrow>
     file_nodes t' = file_nodes t \<and> erase_dir_sizes t' = erase_dir_sizes t"
  using aggregate_frame(1) by blast

theorem aggregate_size_frame_witness:
  "aggregate_size tree_built = Inr (tree_aggregated, 10)
     \<and> file_nodes tree_aggregated = [file_g, file_f]
     \<and> file_nodes tree_aggregated = file_nodes tree_built
     \<and> erase_dir_sizes tree_aggregated = erase_dir_sizes tree_built"
proof -
  have "file_nodes tree_built = [file_g, file_f]"
    by (simp add: tree_built_def file_g_def file_f_def)
  with aggregate_size_frame[OF aggregate_tree_built] aggregate_tree_built
  show ?thesis by simp
qed

section \<open>Reparse resolver: results\<close>

text \<open>
  The buffer has \<open>MAX_REPARSE_SIZE\<close> = 16384 bytes and the structure 16400, so
  \<open>from_buffer_copy\<close> raises \<open>ValueError\<close> whatever the device control has written, and
  line 86 returns \<open>False\<close>: lines 88 to 100 are not reached, and the function raises
  nothing.
\<close>

lemma length_reparse_buffer: "length (reparse_buffer written) = MAX_REPARSE_SIZE"
  by (simp add: reparse_buffer_def)

lemma from_buffer_copy_raises: "from_buffer_copy (reparse_buffer written) = Inl ValueError"
  by (simp add: from_buffer_copy_def length_reparse_buffer sizeof_GENERIC_REPARSE_BUFFER_def
      MAX_REPARSE_SIZE_def sizeof_c_wchar_def)

lemma same_volume_returns:
  "is_reparse_point_target_same_volume env path volume_letter
     = Inr (case get_attrs env path of
              None \<Rightarrow> False
            | Some attrs \<Rightarrow> and attrs FILE_ATTRIBUTE_REPARSE_POINT = 0)"
  by (simp add: is_reparse_point_target_same_volume_def from_buffer_copy_raises Let_def
      split: option.splits prod.splits)

lemma reparse_gate_returns: "reparse_gate env path v = Inr (\<not> is_reparse_point env path)"
  by (simp add: reparse_gate_def same_volume_returns is_reparse_point_def split: option.splits)

text \<open>
  Lines 88 to 100 taken by themselves would answer \<open>True\<close> for the substitute name
  \<open>\??\UNC\srv\C:\<close> and the volume \<open>C:\<close>: none of the three literals of line 90, each
  with two backslashes in a row, occurs in it, and the search of line 93 finds \<open>C:\<close>.
\<close>

lemma target_same_volume_unc_drive:
  "contains unc_marker unc_target"
  "target_same_volume ascii_upper unc_target (Some (str ''C:'')) = Inr True"
  by code_simp+

lemma env_unc_substitute_name: "substitute_name unc_reparse_data = unc_target"
  by code_simp

lemma env_unc_device_control:
  "CreateFileW env_unc path_j = Some 4" "DeviceIoControl env_unc 4 = (1, unc_reparse_data)"
  by (simp_all add: env_unc_def)

text \<open>
  C3. For every reparse point, whatever target string its reparse data holds (so for
  every target that contains a UNC marker, whatever drive letter appears elsewhere in it)
  and whatever the root volume, \<open>is_reparse_point_target_same_volume\<close> returns \<open>False\<close>.
\<close>

theorem reparse_point_not_same_volume:
  "is_reparse_point env path \<Longrightarrow>
     is_reparse_point_target_same_volume env path volume_letter = Inr False"
  by (simp add: same_volume_returns is_reparse_point_def split: option.splits)

theorem reparse_point_not_same_volume_witness:
  "is_reparse_point env_unc path_j
   \<and> CreateFileW env_unc path_j = Some 4
   \<and> DeviceIoControl env_unc 4 = (1, unc_reparse_data)
   \<and> substitute_name unc_reparse_data = unc_target
   \<and> contains unc_marker unc_target
   \<and> search_drive unc_target = Some (str ''C:'')
   \<and> is_reparse_point_target_same_volume env_unc path_j (Some (str ''C:'')) = Inr False"
proof -
  have h: "is_reparse_point env_unc path_j" by code_simp
  have d: "search_drive unc_target = Some (str ''C:'')" by code_simp
  from reparse_point_not_same_volume[OF h, of "Some (str ''C:'')"] h d
    env_unc_device_control env_unc_substitute_name target_same_volume_unc_drive(1)
  show ?thesis by simp
qed

section \<open>Tree builder: results\<close>

lemma add_child_depths:
  "all_depths_le m d node \<Longrightarrow> all_depths_le m (d + 1) ch \<Longrightarrow>
     all_depths_le m d (add_child node ch)"
  by (cases "(node, ch)" rule: add_child.cases) auto

lemma add_child_inv:
  "children_iff_dir node \<Longrightarrow> children_iff_dir ch \<Longrightarrow> children_iff_dir (add_child node ch)"
  by (cases "(node, ch)" rule: add_child.cases) auto

lemma add_child_absent: "children node = None \<Longrightarrow> add_child node ch = node"
  by (cases "(node, ch)" rule: add_child.cases) auto

lemma Node_init_depths: "d \<le> m \<Longrightarrow> all_depths_le m d (Node_init nm dr sz)"
  by (simp add: Node_init_def)

lemma Node_init_inv: "children_iff_dir (Node_init nm dr sz)"
  by (simp add: Node_init_def)

lemma new_node_inv: "children_iff_dir (new_node env path parent)"
  by (simp add: new_node_def Node_init_inv split: option.splits)

lemma build_tree_Some:
  assumes "build_tree env path parent depth max_depth v = Some t"
  shows "(t = new_node env path parent \<and> \<not> (is_dir t \<and> depth < max_depth)) \<or>
         (depth < max_depth \<and> is_dir (new_node env path parent) \<and>
          reparse_gate env path v = Inr True \<and>
          (\<exists>entries. scandir env path = Inr (entries, None) \<and>
             scan_entries env entries (new_node env path parent) depth max_depth v = Inr t))"
  using assms
  by (simp add: build_tree.simps Let_def
      split: sum.splits if_splits prod.splits option.splits)

lemma build_tree_depths:
  "build_tree env path parent depth max_depth v = Some t \<Longrightarrow> depth \<le> max_depth \<Longrightarrow>
     all_depths_le max_depth depth t"
  "scan_entries env entries node depth max_depth v = Inr node' \<Longrightarrow> depth < max_depth \<Longrightarrow>
     all_depths_le max_depth depth node \<Longrightarrow> all_depths_le max_depth depth node'"
proof (induction env path parent depth max_depth v and env entries node depth max_depth v
    arbitrary: t and node' rule: build_tree_scan_entries.induct)
  case (1 env path parent depth max_depth v)
  have n: "all_depths_le max_depth depth (new_node env path parent)"
    using "1.prems"(2) by (simp add: new_node_def Node_init_depths split: option.splits)
  from build_tree_Some[OF "1.prems"(1)] show ?case
  proof (elim disjE conjE exE)
    assume "t = new_node env path parent"
    with n show ?thesis by simp
  next
    fix entries
    assume a: "depth < max_depth" "is_dir (new_node env path parent)"
      "reparse_gate env path v = Inr True"
      "scandir env path = Inr (entries, None)"
      "scan_entries env entries (new_node env path parent) depth max_depth v = Inr t"
    show ?thesis
      using "1.IH"[of "new_node env path parent" True "(entries, None)" entries None t] a n
      by simp
  qed
next
  case (2 env node depth max_depth v)
  then show ?case by simp
next
  case (3 env entry rest node depth max_depth v)
  show ?case
  proof (cases "entry_is_dir entry")
    case (Inl e)
    with "3.prems" "3.IH"(1) show ?thesis
      by (simp split: if_splits)
  next
    case (Inr d)
    show ?thesis
    proof (cases d)
      case False
      with Inr "3.prems" "3.IH"(7,8) show ?thesis
        by (simp add: Let_def add_child_depths Node_init_depths split: if_splits)
    next
      case True
      show ?thesis
      proof (cases "reparse_gate env (entry_path entry) v")
        case (Inl e)
        with Inr True "3.prems" "3.IH"(2) show ?thesis
          by (simp split: if_splits)
      next
        case gate: (Inr same)
        show ?thesis
        proof (cases same)
          case False
          with gate Inr True "3.prems" "3.IH"(3) show ?thesis by simp
        next
          case same: True
          show ?thesis
          proof (cases "build_tree env (entry_path entry) (Some node) (depth + 1) max_depth v")
            case None
            with same gate Inr True "3.prems" "3.IH"(5) show ?thesis by simp
          next
            case (Some child)
            from "3.IH"(4)[OF Inr True gate _ Some] same "3.prems"(2)
            have "all_depths_le max_depth (depth + 1) child" by simp
            with "3.prems"(3) have "all_depths_le max_depth depth (add_child node child)"
              by (simp add: add_child_depths)
            with Some same gate Inr True "3.prems" "3.IH"(6) show ?thesis by simp
          qed
        qed
      qed
    qed
  qed
qed

lemma build_tree_inv:
  "build_tree env path parent depth max_depth v = Some t \<Longrightarrow> children_iff_dir t"
  "scan_entries env entries node depth max_depth v = Inr node' \<Longrightarrow>
     children_iff_dir node \<Longrightarrow> children_iff_dir node'"
proof (induction env path parent depth max_depth v and env entries node depth max_depth v
    arbitrary: t and node' rule: build_tree_scan_entries.induct)
  case (1 env path parent depth max_depth v)
  note n = new_node_inv[of env path parent]
  from build_tree_Some[OF "1.prems"(1)] show ?case
  proof (elim disjE conjE exE)
    assume "t = new_node env path parent"
    with n show ?thesis by simp
  next
    fix entries
    assume a: "depth < max_depth" "is_dir (new_node env path parent)"
      "reparse_gate env path v = Inr True"
      "scandir env path = Inr (entries, None)"
      "scan_entries env entries (new_node env path parent) depth max_depth v = Inr t"
    show ?thesis
      using "1.IH"[of "new_node env path parent" True "(entries, None)" entries None t] a n
      by simp
  qed
next
  case (2 env node depth max_depth v)
  then show ?case by simp
next
  case (3 env entry rest node depth max_depth v)
  show ?case
  proof (cases "entry_is_dir entry")
    case (Inl e)
    with "3.prems" "3.IH"(1) show ?thesis
      by (simp split: if_splits)
  next
    case (Inr d)
    show ?thesis
    proof (cases d)
      case False
      with Inr "3.prems" "3.IH"(7,8) show ?thesis
        by (simp add: Let_def add_child_inv Node_init_inv split: if_splits)
    next
      case True
      show ?thesis
      proof (cases "reparse_gate env (entry_path entry) v")
        case (Inl e)
        with Inr True "3.prems" "3.IH"(2) show ?thesis
          by (simp split: if_splits)
      next
        case gate: (Inr same)
        show ?thesis
        proof (cases same)
          case False
          with gate Inr True "3.prems" "3.IH"(3) show ?thesis by simp
        next
          case same: True
          show ?thesis
          proof (cases "build_tree env (entry_path entry) (Some node) (depth + 1) max_depth v")
            case None
            with same gate Inr True "3.prems" "3.IH"(5) show ?thesis by simp
          next
            case (Some child)
            from "3.IH"(4)[OF Inr True gate _ Some] same
            have "children_iff_dir child" by simp
            with "3.prems"(2) have "children_iff_dir (add_child node child)"
              by (simp add: add_child_inv)
            with Some same gate Inr True "3.prems" "3.IH"(6) show ?thesis by simp
          qed
        qed
      qed
    qed
  qed
qed

lemma build_tree_example:
  "build_tree env_example root_path None 0 3 (Some (str ''C:'')) = Some tree_built"
  by code_simp

lemma build_tree_example_depth_1:
  "build_tree env_example root_path None 0 1 (Some (str ''C:'')) = Some tree_depth_1"
  by code_simp

lemma scan_entries_example:
  "scan_entries env_example [entry_g] node_a 1 3 (Some (str ''C:''))
     = Inr (Node (str ''a'') True (Some [file_g]) 0)"
  by code_simp

lemma build_tree_denied:
  assumes "parent = None \<or> isdir env path"
    and "depth < max_depth"
    and "scandir env path = Inl PermissionError"
  shows "build_tree env path parent depth max_depth v = None"
proof -
  from assms(1) have "is_dir (new_node env path parent)"
    by (auto simp: new_node_def Node_init_def split: option.splits)
  with assms(2,3) show ?thesis
    by (simp add: build_tree.simps Let_def split: sum.splits)
qed

text \<open>
  C1, as the source has it. When the enumeration of a directory is attempted
  (\<open>depth < max_depth\<close>) and \<open>os.scandir\<close> raises \<open>PermissionError\<close>, line 183 returns
  \<open>None\<close>: \<open>build_tree\<close> returns no node for that directory. In the loop of its parent
  (lines 167 to 170) the entry then adds nothing: the loop goes on with the parent node
  as it was, so the directory is not among the children of its parent.
\<close>

theorem build_tree_scandir_denied:
  "(depth < max_depth \<and> (parent = None \<or> isdir env path)
      \<and> scandir env path = Inl PermissionError
    \<longrightarrow> build_tree env path parent depth max_depth v = None)
   \<and> (d + 1 < max_depth \<and> entry_is_dir entry = Inr True \<and> isdir env (entry_path entry)
      \<and> scandir env (entry_path entry) = Inl PermissionError
    \<longrightarrow> scan_entries env (entry # rest) node d max_depth v
          = scan_entries env rest node d max_depth v)"
proof (intro conjI impI)
  assume "depth < max_depth \<and> (parent = None \<or> isdir env path)
      \<and> scandir env path = Inl PermissionError"
  then show "build_tree env path parent depth max_depth v = None"
    by (simp add: build_tree_denied)
next
  assume a: "d + 1 < max_depth \<and> entry_is_dir entry = Inr True \<and> isdir env (entry_path entry)
      \<and> scandir env (entry_path entry) = Inl PermissionError"
  then have "build_tree env (entry_path entry) (Some node) (d + 1) max_depth v = None"
    by (intro build_tree_denied) simp_all
  with a show "scan_entries env (entry # rest) node d max_depth v
          = scan_entries env rest node d max_depth v"
    by (simp add: reparse_gate_returns)
qed

theorem build_tree_scandir_denied_witness:
  "(1::int) + 1 < 3 \<and> entry_is_dir entry_b = Inr True \<and> entry_path entry_b = path_b
   \<and> isdir env_example path_b \<and> scandir env_example path_b = Inl PermissionError
   \<and> build_tree env_example path_b (Some node_a) 2 3 (Some (str ''C:'')) = None
   \<and> scan_entries env_example [entry_b, entry_g] node_a 1 3 (Some (str ''C:''))
       = Inr (Node (str ''a'') True (Some [file_g]) 0)"
proof -
  have h1: "(1::int) + 1 < 3" by simp
  have h2: "entry_is_dir entry_b = Inr True" "entry_path entry_b = path_b" by code_simp+
  have h3: "isdir env_example path_b" by code_simp
  have h4: "scandir env_example path_b = Inl PermissionError" by code_simp
  note t = build_tree_scandir_denied[of 2 3 "Some node_a" env_example path_b "Some (str ''C:'')"
      1 entry_b "[entry_g]" node_a]
  from t h1 h2 h3 h4 scan_entries_example show ?thesis by simp
qed

text \<open>
  C1, as the claim states it, fails below the root: the enumeration of the directory \<open>b\<close>
  of \<open>a\<close> is denied; \<open>build_tree\<close> returns \<open>None\<close> for it, and the tree built from the
  root holds \<open>a\<close> with the file \<open>g\<close> alone, without a node for \<open>b\<close>.
\<close>

theorem build_tree_denied_counterexample:
  "isdir env_example path_b
   \<and> scandir env_example path_b = Inl PermissionError
   \<and> build_tree env_example path_b (Some node_a) 2 3 (Some (str ''C:'')) = None
   \<and> build_tree env_example root_path None 0 3 (Some (str ''C:''))
       = Some (Node (str ''C:'') True
           (Some [Node (str ''a'') True (Some [Node (str ''g'') False None 3]) 0,
                  Node (str ''f'') False None 7]) 0)"
  by code_simp

text \<open>
  C6, as the source has it. In a tree returned by \<open>build_tree\<close> called at \<open>depth\<close> with
  \<open>depth \<le> max_depth\<close>, every entry lies at depth at most \<open>max_depth\<close>, the root of the
  returned tree counting for \<open>depth\<close>: for the call at the root (\<open>depth = 0\<close>) and
  \<open>max_depth \<ge> 0\<close>, no entry is deeper than \<open>max_depth\<close>. The depth of a recursive call
  is that of its caller plus one, whatever was pruned before.
\<close>

theorem build_tree_depth_bound:
  "build_tree env path parent depth max_depth v = Some t \<Longrightarrow> depth \<le> max_depth \<Longrightarrow>
     all_depths_le max_depth depth t"
  by (rule build_tree_depths(1))

theorem build_tree_depth_bound_witness:
  "build_tree env_example root_path None 0 1 (Some (str ''C:'')) = Some tree_depth_1
   \<and> (0::int) \<le> 1
   \<and> all_depths_le 1 0 tree_depth_1"
proof -
  have h: "(0::int) \<le> 1" by simp
  from build_tree_depth_bound[OF build_tree_example_depth_1 h] build_tree_example_depth_1
  show ?thesis by simp
qed

text \<open>
  C6, as the claim states it, fails for a negative \<open>max_depth\<close>: with \<open>max_depth = -1\<close>
  the test of line 156 fails and line 184 returns the root, which lies at depth 0.
\<close>

theorem build_tree_negative_max_depth_counterexample:
  "build_tree env_example root_path None 0 (- 1) (Some (str ''C:'')) = Some root_only
   \<and> \<not> all_depths_le (- 1) 0 root_only"
  by code_simp

text \<open>
  C10. \<open>add_child\<close> on a node without a child list (a file) returns the node as it is.
  The invariant that a child list is present exactly for a directory, at every node, holds
  for a node made by \<open>Node.__init__\<close>, is kept by \<open>add_child\<close> and by \<open>aggregate_size\<close>,
  and holds for every tree that \<open>build_tree\<close> returns.
\<close>

theorem children_iff_dir_preserved:
  "(children f = None \<longrightarrow> add_child f ch = f)
   \<and> children_iff_dir (Node_init nm d sz)
   \<and> (children_iff_dir node \<and> children_iff_dir ch \<longrightarrow> children_iff_dir (add_child node ch))
   \<and> (children_iff_dir node \<and> aggregate_size node = Inr (node', r) \<longrightarrow> children_iff_dir node')
   \<and> (build_tree env path parent depth max_depth v = Some t \<longrightarrow> children_iff_dir t)"
  using add_child_absent add_child_inv Node_init_inv aggregate_keeps_inv(1) build_tree_inv(1)
  by blast

theorem children_iff_dir_preserved_witness:
  "children file_f = None \<and> add_child file_f file_g = file_f
   \<and> children_iff_dir (Node_init (str ''f'') False 7)
   \<and> children_iff_dir tree_built \<and> children_iff_dir file_g
   \<and> children_iff_dir (add_child tree_built file_g)
   \<and> aggregate_size tree_built = Inr (tree_aggregated, 10)
   \<and> children_iff_dir tree_aggregated
   \<and> build_tree env_example root_path None 0 3 (Some (str ''C:'')) = Some tree_built"
proof -
  have h1: "children file_f = None" by (simp add: file_f_def)
  have h2: "children_iff_dir tree_built" "children_iff_dir file_g"
    by (simp_all add: tree_built_def file_f_def file_g_def)
  from children_iff_dir_preserved[of file_f file_g "str ''f''" False 7 tree_built
      tree_aggregated 10 env_example root_path None 0 3 "Some (str ''C:'')" tree_built]
    h1 h2 aggregate_tree_built build_tree_example
  show ?thesis by simp
qed

section \<open>Treemap layout: results\<close>

subsection \<open>The truncated quotient\<close>

text \<open>
  Rounding to the nearest integer is monotone and keeps integers; the exponent chosen by
  \<open>quotient_exponent\<close> brackets the quotient. With a numerator below \<open>2 ^ 53\<close> the
  rounded quotient never reaches the next integer, so its truncation is the floor of the
  exact quotient.
\<close>

text \<open>
  The model against values of CPython: \<open>1 / 3\<close> is \<open>0x1.5555555555555p-2\<close>;
  \<open>2 ** 1024 - 2 ** 970\<close> lies half way to \<open>2 ** 1024\<close> and overflows, the integer before
  it gives the largest binary64 number; \<open>int(-7 / 2)\<close> is \<open>-3\<close>; and
  \<open>int(4 * (2 ** 60 - 1) / 2 ** 61)\<close> is 2, the exact quotient being just below 2.
\<close>

lemma py_truediv_values:
  "py_truediv 1 3 = Inr (6004799503160661, - 54)"
  "py_truediv (2 ^ 1024 - 2 ^ 970) 1 = Inl OverflowError"
  "py_truediv (2 ^ 1024 - 2 ^ 970 - 1) 1 = Inr (2 ^ 53 - 1, 971)"
  "map_sum id py_int (py_truediv (- 7) 2) = Inr (- 3)"
  "map_sum id py_int (py_truediv (4 * (2 ^ 60 - 1)) (2 ^ 61)) = Inr 2"
  "py_truediv 5 0 = Inl ZeroDivisionError"
  by code_simp+















subsection \<open>Shares\<close>








subsection \<open>Placements\<close>

lemma extends_ok_refl: "extends_ok rects (rects, e)"
  by (simp add: extends_ok_def)

lemma extends_ok_trans:
  "extends_ok (rects @ added) res \<Longrightarrow> list_all rect_ok added \<Longrightarrow> extends_ok rects res"
  by (auto simp: extends_ok_def)

lemma extends_ok_step:
  "extends_ok rects (rects', e) \<Longrightarrow> extends_ok rects' res \<Longrightarrow> extends_ok rects res"
  by (auto simp: extends_ok_def)

lemma draw_extends:
  "extends_ok rectangles (draw_node_recursive node x y width height level max_draw_depth rectangles)"
  "extends_ok rectangles (draw_treemap nodes x y width height level max_draw_depth rectangles)"
  "extends_ok rectangles (draw_strips vertical_split calls x y width height level max_draw_depth rectangles)"
proof (induction node x y width height level max_draw_depth rectangles
    and nodes x y width height level max_draw_depth rectangles
    and vertical_split calls x y width height level max_draw_depth rectangles
    rule: draw_node_recursive_draw_treemap_draw_strips.induct)
  case (1 node x y width height level max_draw_depth rectangles)
  show ?case
  proof (cases "width < 2 \<or> height < 2")
    case True
    then show ?thesis by (simp add: draw_node_recursive.simps extends_ok_refl)
  next
    case False
    let ?r = "rectangles @ [(node, x, y, x + width, y + height)]"
    have ok: "list_all rect_ok [(node, x, y, x + width, y + height)]"
      using False by (simp add: rect_ok_def)
    have "extends_ok ?r (draw_node_recursive node x y width height level max_draw_depth rectangles)"
      using False "1.IH"[OF False refl _ refl]
      by (simp add: draw_node_recursive.simps Let_def extends_ok_refl)
    then show ?thesis using ok by (rule extends_ok_trans)
  qed
next
  case (2 nodes x y width height level max_draw_depth rectangles)
  show ?case
  proof (cases "nodes = [] \<or> width < 4 \<or> height < 4 \<or> sum_list (map size_field nodes) = 0")
    case True
    then show ?thesis by (auto simp add: draw_treemap.simps extends_ok_refl)
  next
    case False
    then have g: "\<not> (nodes = [] \<or> width < 4 \<or> height < 4)" "sum_list (map size_field nodes) \<noteq> 0"
      by auto
    show ?thesis
    proof (cases "length nodes = 1")
      case True
      with g "2.IH"(1)[OF g(1) refl g(2) refl True] show ?thesis
        by (simp add: draw_treemap.simps)
    next
      case F: False
      obtain calls raised where c:
        "(if width > height
          then strip_split width (sum_list (map size_field nodes)) x width nodes
          else strip_split height (sum_list (map size_field nodes)) y height nodes)
           = (calls, raised)"
        by (cases "(if width > height
          then strip_split width (sum_list (map size_field nodes)) x width nodes
          else strip_split height (sum_list (map size_field nodes)) y height nodes)")
      from "2.IH"(2)[OF g(1) refl g(2) refl F refl c[symmetric]]
      have "extends_ok rectangles
        (draw_strips (height < width) calls x y width height level max_draw_depth rectangles)" .
      with g F c show ?thesis
        by (auto simp add: draw_treemap.simps Let_def extends_ok_def split: prod.splits)
    qed
  qed
next
  case (3 vertical_split x y width height level max_draw_depth rectangles)
  then show ?case by (simp add: extends_ok_refl)
next
  case (4 vertical_split node current extent calls x y width height level max_draw_depth rectangles)
  show ?case
  proof (cases "extent > 0")
    case False
    with "4.IH"(4) show ?thesis by simp
  next
    case True
    define res where "res = (if vertical_split
               then draw_node_recursive node current y extent height level max_draw_depth
                      rectangles
               else draw_node_recursive node x current width extent level max_draw_depth
                      rectangles)"
    have r: "extends_ok rectangles res"
      using "4.IH"(1,2)[OF True] by (simp add: res_def)
    obtain rects' err where res: "res = (rects', err)" by (cases res)
    show ?thesis
    proof (cases err)
      case None
      have eq: "(rects', err) = (if vertical_split
               then draw_node_recursive node current y extent height level max_draw_depth
                      rectangles
               else draw_node_recursive node x current width extent level max_draw_depth
                      rectangles)" using res by (simp add: res_def)
      from "4.IH"(3)[OF True eq None]
      have "extends_ok rects'
        (draw_strips vertical_split calls x y width height level max_draw_depth rects')" .
      with r res have "extends_ok rectangles
        (draw_strips vertical_split calls x y width height level max_draw_depth rects')"
        using extends_ok_step by blast
      with True res None show ?thesis by (simp add: res_def[symmetric])
    next
      case (Some e)
      with True res r show ?thesis by (simp add: res_def[symmetric])
    qed
  qed
qed

lemma draw_node_first:
  assumes "\<not> (width < 2 \<or> height < 2)"
  shows "\<exists>added. fst (draw_node_recursive node x y width height level max_draw_depth rectangles)
           = rectangles @ (node, x, y, x + width, y + height) # added"
proof (cases "is_dir node \<and> children node \<noteq> None \<and> children node \<noteq> Some []
      \<and> level < max_draw_depth
      \<and> sum_list (map size_field (filter (\<lambda>child. size_field child > 0) (the (children node)))) \<noteq> 0")
  case True
  from draw_extends(2)[of "rectangles @ [(node, x, y, x + width, y + height)]"
      "sorted_children (the (children node))" "x + 2" "y + 2" "width - 4" "height - 4" "level + 1"
      max_draw_depth]
  obtain added where "fst (draw_treemap (sorted_children (the (children node)))
      (x + 2) (y + 2) (width - 4) (height - 4) (level + 1) max_draw_depth
      (rectangles @ [(node, x, y, x + width, y + height)]))
     = (rectangles @ [(node, x, y, x + width, y + height)]) @ added"
    by (auto simp: extends_ok_def)
  with True assms show ?thesis
    by (simp add: draw_node_recursive.simps Let_def)
next
  case False
  with assms show ?thesis
    by (auto simp add: draw_node_recursive.simps Let_def)
qed

text \<open>
  C8. Every placement that \<open>draw_node_recursive\<close> appends to the list, for the node it is
  called on and for every node below it, has a rectangle at least 2 wide and at least 2
  high (also when an exception interrupts the drawing).
\<close>

theorem draw_node_recursive_rects_ok:
  "list_all rect_ok (fst (draw_node_recursive node x y width height level max_draw_depth []))"
  using draw_extends(1)[of "[]" node x y width height level max_draw_depth]
  by (auto simp: extends_ok_def)

theorem draw_node_recursive_rects_ok_witness:
  "fst (draw_node_recursive dir_nested 0 0 40 40 0 2 [])
     = [(dir_nested, 0, 0, 40, 40), (dir_single, 2, 2, 38, 38), (file_f, 4, 4, 36, 36)]
   \<and> list_all rect_ok (fst (draw_node_recursive dir_nested 0 0 40 40 0 2 []))"
proof -
  have a: "fst (draw_node_recursive dir_nested 0 0 40 40 0 2 [])
     = [(dir_nested, 0, 0, 40, 40), (dir_single, 2, 2, 38, 38), (file_f, 4, 4, 36, 36)]"
    by code_simp
  from draw_node_recursive_rects_ok[of dir_nested 0 0 40 40 0 2] a show ?thesis by simp
qed

text \<open>
  C5, as the source has it. A directory with exactly one child, of positive size, laid
  out in \<open>(0, 0, 40, 40)\<close> with \<open>level < max_draw_depth\<close> is placed at
  \<open>(0, 0, 40, 40)\<close>, and its child at the inset rectangle \<open>(2, 2, 38, 38)\<close>: line 392
  hands \<open>draw_treemap\<close> the region \<open>(x + 2, y + 2, width - 4, height - 4)\<close>, which the
  single child receives whole.
\<close>

theorem single_child_inset:
  assumes "is_dir node" and "children node = Some [child]" and "0 < size_field child"
    and "level < max_draw_depth"
  shows "\<exists>added. fst (draw_node_recursive node 0 0 40 40 level max_draw_depth [])
           = (node, 0, 0, 40, 40) # (child, 2, 2, 38, 38) # added"
proof -
  have sc: "sorted_children [child] = [child]"
    using assms(3) by (simp add: sorted_children_def)
  from draw_node_first[of 36 36 child 2 2 "level + 1" max_draw_depth "[(node, 0, 0, 40, 40)]"]
  obtain added where a: "fst (draw_node_recursive child 2 2 36 36 (level + 1) max_draw_depth
      [(node, 0, 0, 40, 40)]) = [(node, 0, 0, 40, 40)] @ (child, 2, 2, 38, 38) # added"
    by auto
  have "draw_node_recursive node 0 0 40 40 level max_draw_depth []
      = draw_treemap [child] 2 2 36 36 (level + 1) max_draw_depth [(node, 0, 0, 40, 40)]"
    using assms sc by (simp add: draw_node_recursive.simps Let_def)
  also have "\<dots> = draw_node_recursive child 2 2 36 36 (level + 1) max_draw_depth
      [(node, 0, 0, 40, 40)]"
    using assms(3) by (simp add: draw_treemap.simps Let_def)
  finally show ?thesis using a by simp
qed

theorem single_child_inset_witness:
  "is_dir dir_nested \<and> children dir_nested = Some [dir_single] \<and> 0 < size_field dir_single
   \<and> (0::int) < 2
   \<and> (\<exists>added. fst (draw_node_recursive dir_nested 0 0 40 40 0 2 [])
         = (dir_nested, 0, 0, 40, 40) # (dir_single, 2, 2, 38, 38) # added)"
proof -
  have h1: "is_dir dir_nested" by (simp add: dir_nested_def)
  have h2: "children dir_nested = Some [dir_single]" by (simp add: dir_nested_def)
  have h3: "0 < size_field dir_single" by (simp add: dir_single_def)
  have h4: "(0::int) < 2" by simp
  from single_child_inset[OF h1 h2 h3 h4] h1 h2 h3 show ?thesis by simp
qed

text \<open>
  C5, as the claim states it, fails: the only child \<open>file_f\<close> of \<open>dir_single\<close> is placed
  at \<open>(2, 2, 38, 38)\<close> and nowhere else.
\<close>

theorem single_child_counterexample:
  "fst (draw_node_recursive dir_single 0 0 40 40 0 1 [])
     = [(dir_single, 0, 0, 40, 40), (file_f, 2, 2, 38, 38)]
   \<and> (file_f, 0, 0, 40, 40) \<notin> set (fst (draw_node_recursive dir_single 0 0 40 40 0 1 []))"
  by code_simp

end
